theory Spec2Isabelle
  imports Main "HOL-Library.AList"
begin

section \<open>Data model of the controller\<close>

text \<open>
  Modelled from the spec: the class \<open>config.Status\<close> (module \<open>config.py\<close> is not part
  of the sources). The spec lists the seven statuses of a job and names the active
  states, the ones counted against the concurrency ceiling.
\<close>

datatype Status =
  pending | scheduled | downloading | refreshing_url | completed | cancelled | error

definition active_states :: "Status list" where
  "active_states = [downloading, refreshing_url]"

text \<open>
  A \<open>datetime\<close> is a point on the time line (naive, one fixed zone). The field
  \<open>sched\<close> of an item holds \<open>target_date.isoformat(sep=' ')\<close>; the text stands for the
  datetime it encodes, so the model stores the datetime.
\<close>

type_synonym datetime = int

text \<open>
  The fields of \<open>ObservableDownloadItem\<close> that controller.py reads or writes. An absent
  string (\<open>None\<close>) and the empty string are both falsy in every test the controller
  makes, so both are the empty string here.
\<close>

record DownloadItem =
  uid :: string
  name :: string
  folder :: string
  url :: string
  eff_url :: string
  type :: string
  subtype_list :: "string list"
  status :: Status
  downloaded :: int
  total_size :: int
  progress :: int
  speed :: int
  eta :: int
  errors :: int
  sched :: "datetime option"
  on_completion_command :: string
  shutdown_pc :: bool
  resumable :: bool
  thumbnail_url :: string
  accept_html :: bool
  observer_registered :: bool

text \<open>The options of module \<open>config\<close> that the controller consults.\<close>

record config =
  max_concurrent_downloads :: int
  refresh_url_retries :: int
  simulator :: bool
  test_mode :: bool
  auto_rename :: bool
  download_folder :: string
  operating_system :: string
  on_download_notification :: bool
  cfg_download_thumbnail :: bool
  checksum :: bool
  use_server_timestamp :: bool
  cfg_on_completion_command :: string
  cfg_shutdown_pc :: bool
  shutdown :: bool

text \<open>
  Values that travel in the keyword dictionaries sent to the view: \<open>None\<close>, integers
  and strings. An event or an update is such a dictionary, kept as an association
  list in insertion order.
\<close>

datatype pyval = NoneV | IntV int | StrV string

type_synonym item = "(string \<times> pyval) list"

text \<open>
  What the controller does to the outside, in the order it does it: a line handed to
  \<open>log\<close> (with its \<open>showpopup\<close> flag), a call of \<open>view.update_view\<close>, a call of
  \<open>report_d\<close> on an item (it runs in a thread of its own), one run of the transfer
  engine on an item, one call of \<open>auto_refresh_url\<close>, and the one-shot utilities.
\<close>

type_synonym ref = nat

datatype effect =
  Log string bool
  | UpdateView item
  | ReportD ref string
  | RunEngine ref
  | RefreshUrl ref
  | AskUser nat
  | DownloadFfmpeg
  | DeleteFile string
  | DownloadThumbnail string
  | CalcChecksum string
  | WriteTimestamp string
  | RunCommand string
  | ShutdownPC
  | Notify string

text \<open>
  Items are objects: the dictionary \<open>d_map\<close>, the pending queue and the playlist hold
  references to them, and a change made through one reference is seen through the
  others. The heap maps a reference to the item's current fields; \<open>next_ref\<close> is the
  first reference not yet handed out. \<open>d_map\<close> is a Python \<open>dict\<close>: an association list
  whose \<open>AList.update\<close> replaces the value of a key in place and appends a new key at
  the end.
\<close>

record controller =
  heap :: "ref \<Rightarrow> DownloadItem"
  next_ref :: ref
  d_map :: "(string \<times> ref) list"
  pending_downloads_q :: "ref list"
  playlist :: "ref list"
  effects :: "effect list"

definition log :: "string \<Rightarrow> bool \<Rightarrow> controller \<Rightarrow> controller" where
  "log msg showpopup c = c\<lparr>effects := effects c @ [Log msg showpopup]\<rparr>"

definition emit :: "effect \<Rightarrow> controller \<Rightarrow> controller" where
  "emit e c = c\<lparr>effects := effects c @ [e]\<rparr>"

definition set_item :: "ref \<Rightarrow> (DownloadItem \<Rightarrow> DownloadItem) \<Rightarrow> controller \<Rightarrow> controller" where
  "set_item r f c = c\<lparr>heap := (heap c)(r := f (heap c r))\<rparr>"

text \<open>The items of \<open>d_map.values()\<close>, in the dictionary's order.\<close>

definition d_map_values :: "controller \<Rightarrow> DownloadItem list" where
  "d_map_values c = map (\<lambda>(k, r). heap c r) (d_map c)"

text \<open>\<open>len([d for d in self.d_map.values() if d.status in Status.active_states])\<close>\<close>

definition active_downloads :: "controller \<Rightarrow> int" where
  "active_downloads c =
     int (length (filter (\<lambda>d. status d \<in> set active_states) (d_map_values c)))"

subsection \<open>Looking an item up: \<open>Controller.get_d\<close>\<close>

text \<open>Python's list indexing: a negative index counts from the end, out of range raises.\<close>

definition py_index :: "'a list \<Rightarrow> int \<Rightarrow> 'a option" where
  "py_index xs i =
     (if 0 \<le> i \<and> i < int (length xs) then Some (xs ! nat i)
      else if i < 0 \<and> - int (length xs) \<le> i then Some (xs ! nat (int (length xs) + i))
      else None)"

text \<open>
  \<open>uid\<close> and \<open>video_idx\<close> default to \<open>None\<close>; \<open>if uid\<close> also fails on the empty string
  and \<open>elif video_idx\<close> on index 0. Any exception gives \<open>None\<close>.
\<close>

definition get_d :: "controller \<Rightarrow> string option \<Rightarrow> int option \<Rightarrow> ref option" where
  "get_d c uid' video_idx =
     (if uid' \<noteq> None \<and> uid' \<noteq> Some [] then map_of (d_map c) (the uid')
      else if video_idx \<noteq> None \<and> video_idx \<noteq> Some 0 then py_index (playlist c) (the video_idx)
      else py_index (playlist c) 0)"

section \<open>Scheduling: \<open>Controller.schedule_start\<close>\<close>

text \<open>The argument \<open>target_date\<close> is any Python value; only a \<open>datetime\<close> is accepted.\<close>

datatype py_target = Datetime datetime | NotDatetime

text \<open>\<open>now\<close> is the value of \<open>datetime.now()\<close> at the call.\<close>

definition schedule_start ::
  "datetime \<Rightarrow> controller \<Rightarrow> string option \<Rightarrow> int option \<Rightarrow> py_target \<Rightarrow> controller" where
  "schedule_start now c uid' video_idx target_date =
     (case get_d c uid' video_idx of
        None \<Rightarrow> c
      | Some r \<Rightarrow>
          (case target_date of
             NotDatetime \<Rightarrow> c
           | Datetime t \<Rightarrow>
               if t < now
               then log ''Can not Schedule something in the past'' True c
               else set_item r (\<lambda>d. d\<lparr>sched := Some t, status := scheduled\<rparr>)
                      (log ''Schedule'' False c)))"

definition schedule_cancel :: "controller \<Rightarrow> string option \<Rightarrow> int option \<Rightarrow> controller" where
  "schedule_cancel c uid' video_idx =
     (case get_d c uid' video_idx of
        None \<Rightarrow> c
      | Some r \<Rightarrow>
          if status (heap c r) \<noteq> scheduled then c
          else set_item r (\<lambda>d. d\<lparr>status := cancelled, sched := None\<rparr>)
                 (log ''Schedule has been cancelled'' False c))"

section \<open>Stopping: \<open>Controller.stop_download\<close>\<close>


text \<open>A default item and an empty controller, for concrete runs.\<close>

definition item0 :: DownloadItem where
  "item0 = \<lparr>uid = ''u'', name = ''file.bin'', folder = ''/tmp'', url = ''http://h/file.bin'',
     eff_url = ''http://h/file.bin'', type = ''application/octet-stream'', subtype_list = [],
     status = cancelled, downloaded = 0, total_size = 1000, progress = 0, speed = 0, eta = 0,
     errors = 0, sched = None, on_completion_command = [], shutdown_pc = False,
     resumable = True, thumbnail_url = [], accept_html = False, observer_registered = False\<rparr>"

definition controller0 :: controller where
  "controller0 = \<lparr>heap = (\<lambda>_. item0), next_ref = 0, d_map = [], pending_downloads_q = [],
     playlist = [], effects = []\<rparr>"

text \<open>A controller whose store holds one item, at reference 0, with the given status.\<close>

definition controller1 :: "Status \<Rightarrow> controller" where
  "controller1 s = \<lparr>heap = (\<lambda>_. item0\<lparr>status := s\<rparr>), next_ref = 1, d_map = [(''u'', 0)],
     pending_downloads_q = [], playlist = [], effects = []\<rparr>"

section \<open>Event aggregation: \<open>Controller._observer\<close> and \<open>Controller._update_view\<close>\<close>

text \<open>Python's truth value of a dictionary value, as \<open>if uid:\<close> and \<open>if downloaded:\<close> read it.\<close>

definition truthy :: "pyval \<Rightarrow> bool" where
  "truthy v = (case v of NoneV \<Rightarrow> False | IntV i \<Rightarrow> i \<noteq> 0 | StrV s \<Rightarrow> s \<noteq> [])"

text \<open>\<open>item.get(k)\<close>, with the default \<open>None\<close>.\<close>

definition dict_get :: "item \<Rightarrow> string \<Rightarrow> pyval" where
  "dict_get al k = (case map_of al k of None \<Rightarrow> NoneV | Some v \<Rightarrow> v)"

text \<open>\<open>al.update(**item)\<close>: every field of \<open>item\<close>, in its order, is stored into \<open>al\<close>.\<close>

definition dict_update :: "item \<Rightarrow> item \<Rightarrow> item" where
  "dict_update al item = fold (\<lambda>(k, v). AList.update k v) item al"

text \<open>
  One pass of the inner \<open>for\<close> loop of \<open>_observer\<close> over a queued item:
  \<open>buffer.setdefault(uid, item).update(**item)\<close>, skipped when the item has no truthy
  \<open>uid\<close>. The buffer is a \<open>dict\<close> keyed by the uid, in insertion order.
\<close>

definition observe_item :: "(pyval \<times> item) list \<Rightarrow> item \<Rightarrow> (pyval \<times> item) list" where
  "observe_item buffer item =
     (let uid' = dict_get item ''uid'' in
      if truthy uid' then
        (let entry = (case map_of buffer uid' of None \<Rightarrow> item | Some e \<Rightarrow> e)
         in AList.update uid' (dict_update entry item) buffer)
      else buffer)"

text \<open>The buffer after the \<open>qsize()\<close> items that were queued when the flush began.\<close>

definition fill_buffer :: "item list \<Rightarrow> (pyval \<times> item) list" where
  "fill_buffer q = fold (\<lambda>item buffer. observe_item buffer item) q []"

text \<open>\<open>sum([d.speed for d in self.d_map.values() if d.status == Status.downloading])\<close>\<close>

definition total_speed :: "controller \<Rightarrow> int" where
  "total_speed c = sum_list (map speed (filter (\<lambda>d. status d = downloading) (d_map_values c)))"

text \<open>
  \<open>_update_view(**kwargs)\<close>, in its three parts. First the dictionary that is sent:
  the default command, and the derived fields when the update carries a truthy
  \<open>downloaded\<close> and the item is in the store.
\<close>

definition view_kwargs :: "controller \<Rightarrow> item \<Rightarrow> item" where
  "view_kwargs c kwargs =
     (let kwargs1 = (if map_of kwargs ''command'' = None
                     then kwargs @ [(''command'', StrV ''update'')] else kwargs);
          d = (case dict_get kwargs1 ''uid'' of StrV u \<Rightarrow> map_of (d_map c) u | _ \<Rightarrow> None)
      in case d of
           None \<Rightarrow> kwargs1
         | Some r \<Rightarrow>
             if truthy (dict_get kwargs1 ''downloaded'')
             then dict_update kwargs1
                    [(''progress'', IntV (progress (heap c r))),
                     (''speed'', IntV (speed (heap c r))),
                     (''eta'', IntV (eta (heap c r)))]
             else kwargs1)"

text \<open>Second the notification of the total speed.\<close>

definition total_speed_update :: "controller \<Rightarrow> item" where
  "total_speed_update c = [(''command'', StrV ''total_speed''), (''total_speed'', IntV (total_speed c))]"

text \<open>
  Third the two calls of \<open>view.update_view\<close>: the total speed first, the update itself
  second. The view is taken to return normally.
\<close>

definition update_view :: "item \<Rightarrow> controller \<Rightarrow> controller" where
  "update_view kwargs c =
     emit (UpdateView (view_kwargs c kwargs)) (emit (UpdateView (total_speed_update c)) c)"

text \<open>
  One turn of the \<open>while True\<close> loop of \<open>_observer\<close>: fill the buffer from the queue,
  call \<open>_update_view\<close> on every value of the buffer, clear the buffer.
\<close>

definition observer_flush :: "item list \<Rightarrow> controller \<Rightarrow> controller" where
  "observer_flush q c = fold (\<lambda>(k, v). update_view v) (fill_buffer q) c"

text \<open>What one flush sent to the view, in the order in which it was sent.\<close>

definition flush_output :: "item list \<Rightarrow> controller \<Rightarrow> item list" where
  "flush_output q c =
     concat (map (\<lambda>e. case e of UpdateView kw \<Rightarrow> [kw] | _ \<Rightarrow> [])
       (drop (length (effects c)) (effects (observer_flush q c))))"

section \<open>The completion watchdog: \<open>Controller._on_completion_watchdog\<close>\<close>





section \<open>The outside world\<close>

text \<open>
  A raised exception, by the name of its class. A call that can raise returns
  \<open>exn + 'a\<close> (\<open>Inl\<close> the exception) or \<open>exn option\<close> when it returns nothing.
\<close>

datatype exn = Raised string

text \<open>The outcome of writing the test file into the destination folder.\<close>

datatype folder_result = FolderOk | FileNotFoundError | PermissionError | OtherError

text \<open>
  Everything the controller calls that is not in controller.py, as the functions of one
  record: the transfer engine \<open>brain\<close> (what the item is when attempt \<open>n\<close> returns,
  changes made meanwhile by other threads included), the moments at which another
  thread cancels an item that the simulator is transferring, the helpers of \<open>utils\<close>,
  the media extractor, the answers of the user to the numbered popups, and the file
  system.
\<close>

record env =
  brain :: "nat \<Rightarrow> DownloadItem \<Rightarrow> DownloadItem"
  stop_request :: "nat \<Rightarrow> nat \<Rightarrow> bool"
  get_headers :: "string \<Rightarrow> exn + item"
  get_media_playlist :: "string \<Rightarrow> exn + DownloadItem list"
  download_file :: "string \<Rightarrow> exn option"
  calc_md5_sha256 :: "string \<Rightarrow> exn + string \<times> string"
  parse_timestamp :: "pyval \<Rightarrow> exn + int"
  utime :: "string \<Rightarrow> int \<Rightarrow> exn option"
  run_command :: "string \<Rightarrow> bool \<times> string"
  get_user_response :: "nat \<Rightarrow> string"
  check_ffmpeg :: bool
  folder_test :: "string \<Rightarrow> folder_result"
  isfile :: "string \<Rightarrow> bool"
  rename_to :: "string \<Rightarrow> string \<Rightarrow> string"
  calculate_uid :: "string \<Rightarrow> string \<Rightarrow> string"

text \<open>
  Modelled from the spec: the property \<open>target_file\<close> of an item (module \<open>model.py\<close> is
  not part of the sources); the spec gives it as the target path, folder + name.
\<close>

definition target_file :: "DownloadItem \<Rightarrow> string" where
  "target_file d = folder d @ ''/'' @ name d"

text \<open>
  The media types that \<open>config.MediaType\<close> names (the module is not part of the
  sources); controller.py compares \<open>d.type\<close> with the literal \<open>'video'\<close> as well.
\<close>

definition MediaType_video :: string where "MediaType_video = ''video''"
definition MediaType_audio :: string where "MediaType_audio = ''audio''"
definition MediaType_key :: string where "MediaType_key = ''key''"

text \<open>
  Sequencing of two steps of which the first may raise: the second runs only when the
  first returned.
\<close>

definition and_then ::
  "exn option \<times> controller \<Rightarrow> (controller \<Rightarrow> exn option \<times> controller) \<Rightarrow> exn option \<times> controller" where
  "and_then m f = (case m of (Some e, c) \<Rightarrow> (Some e, c) | (None, c) \<Rightarrow> f c)"

text \<open>\<open>except Exception as e: log(msg, e); if config.test_mode: raise e\<close>\<close>

definition caught :: "config \<Rightarrow> string \<Rightarrow> exn \<Rightarrow> controller \<Rightarrow> exn option \<times> controller" where
  "caught cfg msg e c = (if test_mode cfg then Some e else None, log msg False c)"

section \<open>After a download: \<open>download_thumbnail\<close>, \<open>write_timestamp\<close>, \<open>Controller._post_download\<close>\<close>

definition download_thumbnail ::
  "config \<Rightarrow> env \<Rightarrow> DownloadItem \<Rightarrow> controller \<Rightarrow> exn option \<times> controller" where
  "download_thumbnail cfg env d c =
     (if status d = completed \<and> thumbnail_url d \<noteq> [] then
        (case download_file env (thumbnail_url d) of
           None \<Rightarrow> (None, emit (DownloadThumbnail (thumbnail_url d)) c)
         | Some e \<Rightarrow> caught cfg ''controller._download_thumbnail()> error'' e c)
      else (None, c))"

definition write_timestamp ::
  "config \<Rightarrow> env \<Rightarrow> DownloadItem \<Rightarrow> controller \<Rightarrow> exn option \<times> controller" where
  "write_timestamp cfg env d c =
     (if status d = completed then
        (case get_headers env (eff_url d) of
           Inl e \<Rightarrow> caught cfg ''controller._write_timestamp()> error'' e c
         | Inr headers \<Rightarrow>
             if truthy (dict_get headers ''last-modified'') then
               (case parse_timestamp env (dict_get headers ''last-modified'') of
                  Inl e \<Rightarrow> caught cfg ''controller._write_timestamp()> error'' e c
                | Inr t \<Rightarrow>
                    (case utime env (target_file d) t of
                       Some e \<Rightarrow> caught cfg ''controller._write_timestamp()> error'' e
                                  (log ''writing last modified timestamp'' False c)
                     | None \<Rightarrow> (None, emit (WriteTimestamp (target_file d))
                                        (log ''writing last modified timestamp'' False c))))
             else (None, c))
      else (None, c))"

text \<open>
  The checksum block of \<open>_post_download\<close>: two log lines, the call of
  \<open>calc_md5_sha256\<close> (no \<open>try\<close> around it), two more log lines.
\<close>

definition checksum_action :: "env \<Rightarrow> DownloadItem \<Rightarrow> controller \<Rightarrow> exn option \<times> controller" where
  "checksum_action env d c =
     (case calc_md5_sha256 env (target_file d) of
        Inl e \<Rightarrow> (Some e, log ''Calculating MD5 and SHA256'' False (log [] False c))
      | Inr (md5, sha256) \<Rightarrow>
          (None, log (''SHA256: '' @ sha256) False (log (''MD5: '' @ md5) False
                   (emit (CalcChecksum (target_file d))
                     (log ''Calculating MD5 and SHA256'' False (log [] False c))))))"

text \<open>\<open>err, output = run_command(d.on_completion_command)\<close>, logged when \<open>err\<close>.\<close>

definition completion_command :: "env \<Rightarrow> DownloadItem \<Rightarrow> controller \<Rightarrow> exn option \<times> controller" where
  "completion_command env d c =
     (if fst (run_command env (on_completion_command d))
      then (None, log ''error executing command'' False (emit (RunCommand (on_completion_command d)) c))
      else (None, emit (RunCommand (on_completion_command d)) c))"

definition shutdown_action :: "ref \<Rightarrow> controller \<Rightarrow> exn option \<times> controller" where
  "shutdown_action r c = (None, emit ShutdownPC (set_item r (\<lambda>d. d\<lparr>shutdown_pc := False\<rparr>) c))"

definition post_download :: "config \<Rightarrow> env \<Rightarrow> ref \<Rightarrow> controller \<Rightarrow> exn option \<times> controller" where
  "post_download cfg env r c =
     (if status (heap c r) = completed then
        and_then (if cfg_download_thumbnail cfg then download_thumbnail cfg env (heap c r) c else (None, c))
          (\<lambda>c1. and_then (if checksum cfg then checksum_action env (heap c1 r) c1 else (None, c1))
            (\<lambda>c2. and_then (if use_server_timestamp cfg then write_timestamp cfg env (heap c2 r) c2
                             else (None, c2))
              (\<lambda>c3. and_then (if on_completion_command (heap c3 r) \<noteq> []
                               then completion_command env (heap c3 r) c3 else (None, c3))
                (\<lambda>c4. if shutdown_pc (heap c4 r) then shutdown_action r c4 else (None, c4)))))
      else (None, c))"

section \<open>The transfer engine and the refresh of an expired url\<close>

text \<open>
  \<open>download_simulator\<close>, the engine used when \<open>config.simulator\<close> is set. Its first
  statements set the status to \<open>downloading\<close> and restart a finished item from 0.
\<close>

definition simulator_begin :: "DownloadItem \<Rightarrow> DownloadItem" where
  "simulator_begin d =
     (if downloaded d \<ge> total_size d then d\<lparr>status := downloading, downloaded := 0\<rparr>
      else d\<lparr>status := downloading\<rparr>)"

text \<open>
  Its loop adds \<open>speed // 2 * 1024\<close> bytes a turn, with \<open>speed = 200\<close>. \<open>stop i\<close> says
  that another thread has set the status to \<open>cancelled\<close> by the test of turn \<open>i\<close>.
\<close>

function simulator_loop :: "(nat \<Rightarrow> bool) \<Rightarrow> nat \<Rightarrow> DownloadItem \<Rightarrow> DownloadItem" where
  "simulator_loop stop i d =
     (if downloaded d + 200 div 2 * 1024 \<ge> total_size d
      then d\<lparr>status := completed, downloaded := total_size d\<rparr>
      else if stop i then d\<lparr>downloaded := downloaded d + 200 div 2 * 1024, status := cancelled\<rparr>
      else simulator_loop stop (Suc i) (d\<lparr>downloaded := downloaded d + 200 div 2 * 1024\<rparr>))"
  by pat_completeness auto
termination
  by (relation "measure (\<lambda>(stop, i, d). nat (total_size d - downloaded d))") auto

definition download_simulator :: "(nat \<Rightarrow> bool) \<Rightarrow> DownloadItem \<Rightarrow> DownloadItem" where
  "download_simulator stop d = simulator_loop stop 0 (simulator_begin d)"

text \<open>
  Attempt \<open>n\<close> of the loop of \<open>download\<close>: a thread runs the engine on the item and is
  joined. The engine is the simulator when \<open>config.simulator\<close> is set, \<open>brain\<close> otherwise.
\<close>

definition engine :: "config \<Rightarrow> env \<Rightarrow> nat \<Rightarrow> DownloadItem \<Rightarrow> DownloadItem" where
  "engine cfg env n =
     (if simulator cfg then download_simulator (stop_request env n) else brain env n)"

definition run_engine :: "config \<Rightarrow> env \<Rightarrow> nat \<Rightarrow> ref \<Rightarrow> controller \<Rightarrow> controller" where
  "run_engine cfg env n r c = set_item r (engine cfg env n) (emit (RunEngine r) c)"

text \<open>
  \<open>create_video_playlist\<close>: the extraction either gives a playlist or raises; the
  exception is logged and gives the empty playlist, and is raised again in test mode.
\<close>

definition create_video_playlist ::
  "config \<Rightarrow> env \<Rightarrow> string \<Rightarrow> controller \<Rightarrow> (exn + DownloadItem list) \<times> controller" where
  "create_video_playlist cfg env u c =
     (case get_media_playlist env u of
        Inr pl \<Rightarrow> (Inr pl, log ''creating video playlist'' False c)
      | Inl e \<Rightarrow> (if test_mode cfg then Inl e else Inr [],
                  log ''controller._create_video_playlist:'' False (log ''creating video playlist'' False c)))"

definition str_of :: "pyval \<Rightarrow> string" where
  "str_of v = (case v of StrV s \<Rightarrow> s | _ \<Rightarrow> [])"

text \<open>
  \<open>Controller.auto_refresh_url\<close>. A plain file gets the effective url of a fresh header
  probe unless the probe answers with an HTML page; a media item is replaced, field by
  field, by the first entry of a fresh playlist, which keeps the old name and folder
  (the choice of the streams is inside the entry the extractor returns).
\<close>

definition auto_refresh_url :: "config \<Rightarrow> env \<Rightarrow> ref \<Rightarrow> controller \<Rightarrow> exn option \<times> controller" where
  "auto_refresh_url cfg env r c =
     (if type (heap c r) \<notin> {MediaType_video, MediaType_audio} then
        (case get_headers env (url (heap c r)) of
           Inl e \<Rightarrow> (Some e, emit (RefreshUrl r) c)
         | Inr headers \<Rightarrow>
             if takeWhile (\<lambda>ch. ch \<noteq> CHR '';'') (str_of (dict_get headers ''content-type'')) \<noteq> ''text/html''
             then (None, set_item r (\<lambda>d. d\<lparr>eff_url := str_of (dict_get headers ''eff_url'')\<rparr>)
                           (emit (RefreshUrl r) c))
             else (None, emit (RefreshUrl r) c))
      else
        (case create_video_playlist cfg env (url (heap c r)) (emit (RefreshUrl r) c) of
           (Inl e, c1) \<Rightarrow> (Some e, c1)
         | (Inr [], c1) \<Rightarrow> (None, c1)
         | (Inr (refreshed_d # rest), c1) \<Rightarrow>
             (None, set_item r (\<lambda>d. refreshed_d\<lparr>name := name d, folder := folder d,
                                        observer_registered := True\<rparr>) c1)))"

text \<open>
  The \<open>for n in range(config.refresh_url_retries + 1)\<close> loop of \<open>download\<close>, over the
  values of \<open>n\<close> still to come. \<open>break\<close> ends it; after the log of \<open>too many connection
  errors\<close> the loop goes on to the next \<open>n\<close>, if there is one.
\<close>

fun retry_loop ::
  "config \<Rightarrow> env \<Rightarrow> bool \<Rightarrow> ref \<Rightarrow> nat list \<Rightarrow> controller \<Rightarrow> exn option \<times> controller" where
  "retry_loop cfg env showpopup r [] c = (None, c)"
| "retry_loop cfg env showpopup r (n # ns) c =
     (if status (heap (run_engine cfg env n r c) r) \<noteq> error then (None, run_engine cfg env n r c)
      else if int n \<ge> refresh_url_retries cfg then
        retry_loop cfg env showpopup r ns
          (log ''controller: too many connection errors'' showpopup (run_engine cfg env n r c))
      else
        (case auto_refresh_url cfg env r
                (emit (ReportD r ''update'')
                  (set_item r (\<lambda>d. d\<lparr>status := refreshing_url, errors := 0\<rparr>)
                    (run_engine cfg env n r c))) of
           (Some e, c1) \<Rightarrow> (Some e, c1)
         | (None, c1) \<Rightarrow> retry_loop cfg env showpopup r ns c1))"

text \<open>\<open>range(config.refresh_url_retries + 1)\<close>\<close>

definition retry_range :: "config \<Rightarrow> nat list" where
  "retry_range cfg = [0 ..< nat (refresh_url_retries cfg + 1)]"

section \<open>Checks before a download: \<open>Controller._pre_download_checks\<close>\<close>

text \<open>
  One pass over the body of \<open>_pre_download_checks\<close> ends in one of four ways: the checks
  passed (\<open>return True\<close>), they failed (\<open>return False\<close>), an exception left the method, or
  the item was renamed and the method calls itself on it (\<open>Again\<close>). The body is cut
  into its stages, each handing over to the next one. The first test of the source,
  \<open>if not (d or d.url)\<close>, never holds: \<open>d\<close> is an object and so is truthy.
\<close>

datatype check_outcome = Passed | Failed | Raise exn | Again

text \<open>\<open>rename(d)\<close>: a new name from \<open>auto_rename\<close> over the folder's listing, and the uid of it.\<close>

definition rename :: "env \<Rightarrow> DownloadItem \<Rightarrow> DownloadItem" where
  "rename env d =
     d\<lparr>name := rename_to env (folder d) (name d),
       uid := calculate_uid env (folder d) (rename_to env (folder d) (name d))\<rparr>"

text \<open>The warning for downloads that cannot be resumed (popup 5).\<close>

definition resumable_check ::
  "env \<Rightarrow> bool \<Rightarrow> DownloadItem \<Rightarrow> controller \<Rightarrow> check_outcome \<times> DownloadItem \<times> controller" where
  "resumable_check env silent d c =
     (if \<not> resumable d \<and> \<not> silent then
        (if get_user_response env 5 \<noteq> ''Yes'' then (Failed, d, emit (AskUser 5) c)
         else (Passed, d, emit (AskUser 5) c))
      else (Passed, d, c))"

text \<open>The search of \<open>d_map\<close> for an item with the same uid: resume on equal sizes, else rename.\<close>

definition list_check ::
  "env \<Rightarrow> bool \<Rightarrow> DownloadItem \<Rightarrow> controller \<Rightarrow> check_outcome \<times> DownloadItem \<times> controller" where
  "list_check env silent d c =
     (case map_of (d_map c) (uid d) of
        Some r' \<Rightarrow>
          if total_size d = total_size (heap c r')
          then resumable_check env silent (d\<lparr>downloaded := downloaded (heap c r')\<rparr>)
                 (log ''resume is possible'' False (log ''download item already in list'' False c))
          else (Again, rename env d,
                log ''Rename File'' False (log ''download item already in list'' False c))
      | None \<Rightarrow> resumable_check env silent d (log ''fresh file download'' False c))"

text \<open>The file name, and a file of that name already in the destination (popup 4).\<close>

definition name_check ::
  "config \<Rightarrow> env \<Rightarrow> bool \<Rightarrow> DownloadItem \<Rightarrow> controller \<Rightarrow> check_outcome \<times> DownloadItem \<times> controller" where
  "name_check cfg env silent d c =
     (if name d = [] then (Failed, d, log ''File name can not be empty!!'' (\<not> silent) c)
      else if isfile env (target_file d) then
        (if auto_rename cfg \<or> silent then
           (Again, rename env d, log ''File with the same name exist in download folder'' False c)
         else if get_user_response env 4 = ''Rename'' then
           (Again, rename env d,
            log ''File with the same name exist in download folder'' False (emit (AskUser 4) c))
         else if get_user_response env 4 = ''Overwrite'' then
           list_check env silent d (emit (DeleteFile (target_file d)) (emit (AskUser 4) c))
         else (Failed, d, log ''Download cancelled by user'' False (emit (AskUser 4) c)))
      else list_check env silent d c)"

text \<open>The destination folder: a test file is written into it.\<close>

definition folder_check ::
  "config \<Rightarrow> env \<Rightarrow> bool \<Rightarrow> DownloadItem \<Rightarrow> controller \<Rightarrow> check_outcome \<times> DownloadItem \<times> controller" where
  "folder_check cfg env silent d c =
     (case folder_test env (if folder d \<noteq> [] then folder d else download_folder cfg) of
        FolderOk \<Rightarrow>
          name_check cfg env silent
            (d\<lparr>folder := (if folder d \<noteq> [] then folder d else download_folder cfg)\<rparr>) c
      | FileNotFoundError \<Rightarrow>
          (if test_mode cfg then Raise (Raised ''FileNotFoundError'') else Failed, d,
           log ''destination folder does not exist'' (\<not> silent) c)
      | PermissionError \<Rightarrow>
          (if test_mode cfg then Raise (Raised ''PermissionError'') else Failed, d,
           log ''you do not have enough permission for destination folder'' (\<not> silent) c)
      | OtherError \<Rightarrow>
          (if test_mode cfg then Raise (Raised ''Exception'') else Failed, d,
           log ''problem in destination folder'' (\<not> silent) c))"

text \<open>
  ffmpeg for media items (popup 2). \<open>_download_ffmpeg\<close> submits a download of
  \<open>ffmpeg.exe\<close> of its own, in a thread of its own.
\<close>

definition ffmpeg_check ::
  "config \<Rightarrow> env \<Rightarrow> bool \<Rightarrow> DownloadItem \<Rightarrow> controller \<Rightarrow> check_outcome \<times> DownloadItem \<times> controller" where
  "ffmpeg_check cfg env silent d c =
     (if type d \<in> {MediaType_video, MediaType_audio, MediaType_key} \<and> \<not> check_ffmpeg env then
        (if \<not> silent \<and> operating_system cfg = ''Windows'' then
           (if get_user_response env 2 = ''Download''
            then (Failed, d, emit DownloadFfmpeg (emit (AskUser 2) c))
            else (Failed, d, emit (AskUser 2) c))
         else (Failed, d, log ''FFMPEG is missing'' (\<not> silent) c))
      else folder_check cfg env silent d c)"

text \<open>An item already active, and the stream types that are not supported.\<close>

definition protocol_check ::
  "config \<Rightarrow> env \<Rightarrow> bool \<Rightarrow> DownloadItem \<Rightarrow> controller \<Rightarrow> check_outcome \<times> DownloadItem \<times> controller" where
  "protocol_check cfg env silent d c =
     (if status d \<in> set active_states then
        (Failed, d, log ''download is already in progress for this item'' False c)
      else if filter (\<lambda>item. item \<in> set (subtype_list d)) [''f4m'', ''ism''] \<noteq> [] then
        (Failed, d, log ''unsupported protocol'' (\<not> silent) c)
      else ffmpeg_check cfg env silent d c)"

text \<open>The content type (popup 1): whatever the user answers, the checks go on.\<close>

definition checks_once ::
  "config \<Rightarrow> env \<Rightarrow> bool \<Rightarrow> DownloadItem \<Rightarrow> controller \<Rightarrow> check_outcome \<times> DownloadItem \<times> controller" where
  "checks_once cfg env silent d c =
     (if type d = [] \<or> type d = ''text/html'' then
        (if \<not> silent then
           protocol_check cfg env silent
             (if get_user_response env 1 = ''Ok'' then d\<lparr>accept_html := True\<rparr> else d)
             (emit (AskUser 1) c)
         else (Failed, d, c))
      else protocol_check cfg env silent d c)"

text \<open>
  The method itself. \<open>fuel\<close> is the depth of recursion that Python still allows; when it
  is used up, \<open>RecursionError\<close> is raised.
\<close>

fun pre_download_checks ::
  "nat \<Rightarrow> config \<Rightarrow> env \<Rightarrow> bool \<Rightarrow> DownloadItem \<Rightarrow> controller
     \<Rightarrow> check_outcome \<times> DownloadItem \<times> controller" where
  "pre_download_checks 0 cfg env silent d c = (Raise (Raised ''RecursionError''), d, c)"
| "pre_download_checks (Suc fuel) cfg env silent d c =
     (case checks_once cfg env silent d c of
        (Again, d1, c1) \<Rightarrow> pre_download_checks fuel cfg env silent d1 c1
      | (outcome, d1, c1) \<Rightarrow> (outcome, d1, c1))"

section \<open>Submitting and running a download: \<open>Controller.download\<close>\<close>

text \<open>
  The three statements after successful checks: \<open>report_d(d, command='new')\<close>,
  \<open>d.register_callback(self.observer)\<close> and \<open>self.d_map[d.uid] = d\<close>. The item \<open>d\<close> is
  the copy that \<open>download\<close> made; it becomes an object of the heap here.
\<close>

definition register :: "DownloadItem \<Rightarrow> controller \<Rightarrow> controller" where
  "register d c =
     (emit (ReportD (next_ref c) ''new'') c)
       \<lparr>heap := (heap c)(next_ref c := d\<lparr>observer_registered := True\<rparr>),
        next_ref := Suc (next_ref c),
        d_map := AList.update (uid d) (next_ref c) (d_map c)\<rparr>"

text \<open>
  How the first part of \<open>download\<close> ends, up to the decision to run the item now:
  nothing to download, checks failed, an exception, registered only (\<open>download_later\<close>),
  put on the pending queue, or admitted to run.
\<close>

datatype submission =
  NothingToDownload | Rejected | Raising exn | Registered ref | Queued ref | Admitted ref

text \<open>
  \<open>d\<close> is the item found by \<open>d or self.get_d(uid, video_idx)\<close>, \<open>kwargs\<close> the effect of
  \<open>update_object(d, kwargs)\<close> on the copy.
\<close>

definition download_submit ::
  "nat \<Rightarrow> config \<Rightarrow> env \<Rightarrow> controller \<Rightarrow> ref option \<Rightarrow> (DownloadItem \<Rightarrow> DownloadItem)
     \<Rightarrow> bool \<Rightarrow> bool \<Rightarrow> submission \<times> controller" where
  "download_submit fuel cfg env c d kwargs silent download_later =
     (case d of
        None \<Rightarrow> (NothingToDownload, log ''Nothing to download'' (\<not> silent) c)
      | Some r0 \<Rightarrow>
          (case pre_download_checks fuel cfg env silent (kwargs (heap c r0)) c of
             (Passed, d1, c1) \<Rightarrow>
               if download_later then (Registered (next_ref c1), register d1 c1)
               else if active_downloads (register d1 c1) \<ge> max_concurrent_downloads cfg then
                 (Queued (next_ref c1),
                  (set_item (next_ref c1) (\<lambda>d. d\<lparr>status := pending\<rparr>) (register d1 c1))
                    \<lparr>pending_downloads_q := pending_downloads_q c1 @ [next_ref c1]\<rparr>)
               else (Admitted (next_ref c1), register d1 c1)
           | (Raise e, d1, c1) \<Rightarrow> (Raising e, c1)
           | (outcome, d1, c1) \<Rightarrow> (Rejected, c1)))"

text \<open>The report of a completed download at the end of \<open>download\<close>.\<close>

definition completion_report :: "config \<Rightarrow> ref \<Rightarrow> controller \<Rightarrow> controller" where
  "completion_report cfg r c =
     (if status (heap c r) = completed then
        log ''File saved'' False
          (if on_download_notification cfg then emit (Notify (name (heap c r))) c else c)
      else c)"

text \<open>The end of \<open>download\<close>: \<open>report_d(d)\<close>, \<open>_post_download(d)\<close> and the report.\<close>

definition download_finish :: "config \<Rightarrow> env \<Rightarrow> ref \<Rightarrow> controller \<Rightarrow> exn option \<times> controller" where
  "download_finish cfg env r c =
     (case post_download cfg env r (emit (ReportD r ''update'') c) of
        (Some e, c1) \<Rightarrow> caught cfg ''download()> error:'' e c1
      | (None, c1) \<Rightarrow> (None, completion_report cfg r c1))"

text \<open>
  The whole of \<open>download\<close>, run to its end in one go. The result names the exception
  that leaves the method, if one does.
\<close>

definition download ::
  "nat \<Rightarrow> config \<Rightarrow> env \<Rightarrow> controller \<Rightarrow> ref option \<Rightarrow> (DownloadItem \<Rightarrow> DownloadItem)
     \<Rightarrow> bool \<Rightarrow> bool \<Rightarrow> exn option \<times> controller" where
  "download fuel cfg env c d kwargs silent download_later =
     (case download_submit fuel cfg env c d kwargs silent download_later of
        (NothingToDownload, c1) \<Rightarrow> (None, c1)
      | (Rejected, c1) \<Rightarrow> (None, c1)
      | (Raising e, c1) \<Rightarrow> caught cfg ''download()> error:'' e c1
      | (Queued r, c1) \<Rightarrow> (None, c1)
      | (Registered r, c1) \<Rightarrow> download_finish cfg env r c1
      | (Admitted r, c1) \<Rightarrow>
          (case retry_loop cfg env (\<not> silent) r (retry_range cfg) c1 of
             (Some e, c2) \<Rightarrow> caught cfg ''download()> error:'' e c2
           | (None, c2) \<Rightarrow> download_finish cfg env r c2))"

section \<open>The pending queue: \<open>Controller._pending_downloads_handler\<close>\<close>




section \<open>Counting, and concrete inputs\<close>

text \<open>How often the engine was run on an item, and how often its url was refreshed.\<close>

definition attempts :: "ref \<Rightarrow> controller \<Rightarrow> nat" where
  "attempts r c = count_list (effects c) (RunEngine r)"

definition refreshes :: "ref \<Rightarrow> controller \<Rightarrow> nat" where
  "refreshes r c = count_list (effects c) (RefreshUrl r)"

text \<open>
  A step is quiet when it leaves the store, the queue, every status and the counts of
  engine runs and refreshes as they are.
\<close>

definition quiet :: "controller \<Rightarrow> controller \<Rightarrow> bool" where
  "quiet c c' \<longleftrightarrow>
     d_map c' = d_map c \<and> pending_downloads_q c' = pending_downloads_q c \<and> next_ref c' = next_ref c
     \<and> (\<forall>r. status (heap c' r) = status (heap c r))
     \<and> (\<forall>r. attempts r c' = attempts r c \<and> refreshes r c' = refreshes r c)"

text \<open>
  Concrete options and surroundings for runs on concrete inputs: a ceiling of 1, two
  refreshes, an engine whose every attempt ends with status \<open>error\<close>, helpers that succeed.
\<close>

definition config0 :: config where
  "config0 = \<lparr>max_concurrent_downloads = 1, refresh_url_retries = 2, simulator = False,
     test_mode = False, auto_rename = False, download_folder = ''/tmp'',
     operating_system = ''Linux'', on_download_notification = False,
     cfg_download_thumbnail = False, checksum = False, use_server_timestamp = False,
     cfg_on_completion_command = [], cfg_shutdown_pc = False, shutdown = False\<rparr>"

definition env0 :: env where
  "env0 = \<lparr>brain = (\<lambda>n d. d\<lparr>status := error\<rparr>), stop_request = (\<lambda>n i. False),
     get_headers = (\<lambda>u. Inr []), get_media_playlist = (\<lambda>u. Inr []),
     download_file = (\<lambda>u. None), calc_md5_sha256 = (\<lambda>f. Inr ([], [])),
     parse_timestamp = (\<lambda>v. Inr 0), utime = (\<lambda>f t. None), run_command = (\<lambda>cmd. (False, [])),
     get_user_response = (\<lambda>n. ''Ok''), check_ffmpeg = True, folder_test = (\<lambda>f. FolderOk),
     isfile = (\<lambda>f. False), rename_to = (\<lambda>f n. n @ ''_2''),
     calculate_uid = (\<lambda>f n. f @ ''/'' @ n)\<rparr>"




text \<open>
  The words of the spec for one flush window. The identifiers in the order in which
  they were first seen: of every value the first occurrence is kept.
\<close>

definition first_seen :: "'a list \<Rightarrow> 'a list" where
  "first_seen xs = rev (remdups (rev xs))"

text \<open>
  Last write wins: the value of field \<open>k\<close> for identifier \<open>u\<close> is the one in the last
  event of \<open>u\<close> that sets \<open>k\<close>; the field is absent when no event of \<open>u\<close> sets it.
\<close>

definition last_write :: "item list \<Rightarrow> pyval \<Rightarrow> string \<Rightarrow> pyval option" where
  "last_write q u k =
     (if filter (\<lambda>item. dict_get item ''uid'' = u \<and> map_of item k \<noteq> None) q = [] then None
      else map_of (last (filter (\<lambda>item. dict_get item ''uid'' = u \<and> map_of item k \<noteq> None) q)) k)"

text \<open>The updates of one flush that carry the identifier \<open>u\<close>.\<close>

definition updates_for :: "pyval \<Rightarrow> item list \<Rightarrow> item list" where
  "updates_for u out = filter (\<lambda>kw. dict_get kw ''uid'' = u) out"

text \<open>
  A flush window of three events: two for the identifier \<open>u\<close>, with one for \<open>v\<close>
  between them.
\<close>

definition window3 :: "item list" where
  "window3 =
     [[(''uid'', StrV ''u''), (''downloaded'', IntV 100), (''name'', StrV ''a'')],
      [(''uid'', StrV ''v''), (''downloaded'', IntV 5)],
      [(''uid'', StrV ''u''), (''downloaded'', IntV 250)]]"









text \<open>
  What the checks before a download may leave behind: log lines, questions to the
  user, the deletion of the existing file, the start of the download of ffmpeg.
\<close>

definition check_effects :: "effect list \<Rightarrow> bool" where
  "check_effects es =
     list_all (\<lambda>e. case e of Log m b \<Rightarrow> True | AskUser n \<Rightarrow> True | DownloadFfmpeg \<Rightarrow> True
                      | DeleteFile f \<Rightarrow> True | _ \<Rightarrow> False) es"

text \<open>
  A step that touches neither the items nor the store, the queue or the playlist, and
  adds effects of that kind only.
\<close>

definition checked :: "controller \<Rightarrow> controller \<Rightarrow> bool" where
  "checked c c1 \<longleftrightarrow>
     heap c1 = heap c \<and> d_map c1 = d_map c \<and> next_ref c1 = next_ref c
     \<and> pending_downloads_q c1 = pending_downloads_q c \<and> playlist c1 = playlist c
     \<and> (\<exists>es. effects c1 = effects c @ es \<and> check_effects es)"

text \<open>The content type is missing or is that of an HTML page.\<close>

definition html_or_missing :: "DownloadItem \<Rightarrow> bool" where
  "html_or_missing d \<longleftrightarrow> type d = [] \<or> type d = ''text/html''"

text \<open>The step has added at least one effect.\<close>

definition grew :: "controller \<Rightarrow> controller \<Rightarrow> bool" where
  "grew c c1 \<longleftrightarrow> length (effects c) < length (effects c1)"

text \<open>A controller with an empty store and the given item on the playlist, at reference 0.\<close>

definition playlist_of :: "DownloadItem \<Rightarrow> controller" where
  "playlist_of d = \<lparr>heap = (\<lambda>_. d), next_ref = 1, d_map = [], pending_downloads_q = [],
     playlist = [0], effects = []\<rparr>"



text \<open>A controller with an empty store and two items on the playlist, \<open>u\<close> and \<open>b\<close>.\<close>

definition two_items :: controller where
  "two_items = \<lparr>heap = (\<lambda>r. if r = 1 then item0\<lparr>uid := ''b'', name := ''b.bin''\<rparr> else item0),
     next_ref = 2, d_map = [], pending_downloads_q = [], playlist = [0, 1], effects = []\<rparr>"


text \<open>A list of effects that holds log lines only.\<close>

definition only_logs :: "effect list \<Rightarrow> bool" where
  "only_logs es = list_all (\<lambda>e. case e of Log m b \<Rightarrow> True | _ \<Rightarrow> False) es"

section \<open>Basic facts: what each step leaves alone\<close>

lemma log_frame [simp]:
  "heap (log m b c) = heap c" "d_map (log m b c) = d_map c" "next_ref (log m b c) = next_ref c"
  "pending_downloads_q (log m b c) = pending_downloads_q c" "playlist (log m b c) = playlist c"
  "effects (log m b c) = effects c @ [Log m b]"
  by (simp_all add: log_def)

lemma emit_frame [simp]:
  "heap (emit e c) = heap c" "d_map (emit e c) = d_map c" "next_ref (emit e c) = next_ref c"
  "pending_downloads_q (emit e c) = pending_downloads_q c" "playlist (emit e c) = playlist c"
  "effects (emit e c) = effects c @ [e]"
  by (simp_all add: emit_def)

lemma set_item_frame [simp]:
  "heap (set_item r f c) = (heap c)(r := f (heap c r))" "d_map (set_item r f c) = d_map c"
  "next_ref (set_item r f c) = next_ref c"
  "pending_downloads_q (set_item r f c) = pending_downloads_q c"
  "playlist (set_item r f c) = playlist c" "effects (set_item r f c) = effects c"
  by (simp_all add: set_item_def)

lemma run_engine_frame [simp]:
  "d_map (run_engine cfg env n r c) = d_map c" "next_ref (run_engine cfg env n r c) = next_ref c"
  "pending_downloads_q (run_engine cfg env n r c) = pending_downloads_q c"
  "playlist (run_engine cfg env n r c) = playlist c"
  "effects (run_engine cfg env n r c) = effects c @ [RunEngine r]"
  by (simp_all add: run_engine_def)




lemma only_logs_count [simp]:
  "only_logs es \<Longrightarrow> count_list es (RunEngine r) = 0"
  "only_logs es \<Longrightarrow> count_list es (RefreshUrl r) = 0"
  by (induction es) (auto simp: only_logs_def split: effect.splits)






lemma quiet_refl [simp]: "quiet c c"
  by (simp add: quiet_def)






















lemma retry_loop_break:
  assumes "status (heap (run_engine cfg env n r c) r) \<noteq> error"
  shows "retry_loop cfg env sp r (n # ns) c = (None, run_engine cfg env n r c)"
  using assms by simp








lemma dict_update_map_of:
  "distinct (map fst item) \<Longrightarrow>
     map_of (dict_update al item) k = (case map_of item k of None \<Rightarrow> map_of al k | Some v \<Rightarrow> Some v)"
proof (induction item arbitrary: al)
  case Nil
  show ?case by (simp add: dict_update_def)
next
  case (Cons p item)
  obtain k' v' where p: "p = (k', v')" by (cases p)
  have none: "map_of item k' = None"
    using Cons.prems p by (simp add: map_of_eq_None_iff)
  have "map_of (dict_update al (p # item)) k = map_of (dict_update (AList.update k' v' al) item) k"
    by (simp add: dict_update_def p)
  also have "\<dots> = (case map_of item k of None \<Rightarrow> map_of (AList.update k' v' al) k | Some v \<Rightarrow> Some v)"
    using Cons.IH [of "AList.update k' v' al"] Cons.prems by simp
  finally show ?case
    using none by (auto simp: p update_conv' split: option.splits)
qed

lemma fill_buffer_snoc: "fill_buffer (q @ [x]) = observe_item (fill_buffer q) x"
  by (simp add: fill_buffer_def)

lemma first_seen_snoc: "first_seen (xs @ [x]) = (if x \<in> set xs then first_seen xs else first_seen xs @ [x])"
  by (simp add: first_seen_def)

lemma fill_buffer_keys:
  "map fst (fill_buffer q) = first_seen (filter truthy (map (\<lambda>item. dict_get item ''uid'') q))"
proof (induction q rule: rev_induct)
  case Nil
  show ?case by (simp add: fill_buffer_def first_seen_def)
next
  case (snoc x q)
  show ?case
  proof (cases "truthy (dict_get x ''uid'')")
    case False
    then show ?thesis using snoc by (simp add: fill_buffer_snoc observe_item_def)
  next
    case True
    have "set (map fst (fill_buffer q)) = set (filter truthy (map (\<lambda>item. dict_get item ''uid'') q))"
      using snoc by (simp add: first_seen_def)
    then show ?thesis
      using True snoc
      by (auto simp: fill_buffer_snoc observe_item_def Let_def update_keys first_seen_snoc)
  qed
qed

lemma fill_buffer_distinct: "distinct (map fst (fill_buffer q))"
  by (simp add: fill_buffer_keys first_seen_def)

lemma fill_buffer_dom:
  "(map_of (fill_buffer q) u \<noteq> None) = (truthy u \<and> (\<exists>item\<in>set q. dict_get item ''uid'' = u))"
proof -
  have "(map_of (fill_buffer q) u \<noteq> None) = (u \<in> set (map fst (fill_buffer q)))"
    by (simp add: map_of_eq_None_iff)
  also have "\<dots> = (truthy u \<and> (\<exists>item\<in>set q. dict_get item ''uid'' = u))"
    by (auto simp: fill_buffer_keys first_seen_def)
  finally show ?thesis .
qed

lemma last_write_snoc:
  "last_write (q @ [x]) u k =
     (if dict_get x ''uid'' = u \<and> map_of x k \<noteq> None then map_of x k else last_write q u k)"
  by (simp add: last_write_def)

lemma last_write_none:
  "\<forall>item\<in>set q. dict_get item ''uid'' \<noteq> u \<Longrightarrow> last_write q u k = None"
  by (simp add: last_write_def filter_empty_conv)

lemma fill_buffer_entry:
  assumes "\<forall>item\<in>set q. distinct (map fst item)"
  shows "map_of (fill_buffer q) u = Some e \<Longrightarrow> dict_get e ''uid'' = u \<and> (\<forall>k. map_of e k = last_write q u k)"
  using assms
proof (induction q arbitrary: e rule: rev_induct)
  case Nil
  then show ?case by (simp add: fill_buffer_def)
next
  case (snoc x q)
  have dx: "distinct (map fst x)" using snoc.prems by simp
  have wf: "\<forall>item\<in>set q. distinct (map fst item)" using snoc.prems by simp
  let ?ux = "dict_get x ''uid''"
  show ?case
  proof (cases "truthy ?ux")
    case False
    then have same: "map_of (fill_buffer q) u = Some e"
      using snoc.prems by (simp add: fill_buffer_snoc observe_item_def)
    have "truthy u" using same fill_buffer_dom [of q u] by simp
    then have "?ux \<noteq> u" using False by auto
    then show ?thesis using snoc.IH [OF same wf] by (simp add: last_write_snoc)
  next
    case True
    show ?thesis
    proof (cases "u = ?ux")
      case False
      then have same: "map_of (fill_buffer q) u = Some e"
        using snoc.prems True by (simp add: fill_buffer_snoc observe_item_def Let_def update_conv')
      show ?thesis using snoc.IH [OF same wf] False by (auto simp: last_write_snoc)
    next
      case u: True
      obtain vx where uidx: "map_of x ''uid'' = Some vx"
        using True by (auto simp: dict_get_def truthy_def split: option.splits)
      show ?thesis
      proof (cases "map_of (fill_buffer q) ?ux")
        case None
        then have e: "e = dict_update x x"
          using snoc.prems True u by (simp add: fill_buffer_snoc observe_item_def Let_def update_conv')
        have "\<forall>item\<in>set q. dict_get item ''uid'' \<noteq> ?ux"
          using None fill_buffer_dom [of q ?ux] True by auto
        then have lw: "\<And>k. last_write q ?ux k = None" by (rule last_write_none)
        have m: "\<And>k. map_of e k = map_of x k"
          by (simp add: e dict_update_map_of [OF dx] split: option.splits)
        have g1: "dict_get e ''uid'' = ?ux"
          using m [of "''uid''"] uidx by (simp add: dict_get_def)
        have g2: "map_of e k = last_write (q @ [x]) ?ux k" for k
          using m [of k] lw [of k] by (simp add: last_write_snoc)
        show ?thesis
          unfolding u using g1 g2 by blast
      next
        case (Some e0)
        then have e: "e = dict_update e0 x"
          using snoc.prems True u by (simp add: fill_buffer_snoc observe_item_def Let_def update_conv')
        have Some': "map_of (fill_buffer q) u = Some e0"
          using Some u by simp
        have ih: "\<forall>k. map_of e0 k = last_write q ?ux k"
          using snoc.IH [OF Some' wf] u by simp
        have m: "\<And>k. map_of e k = (case map_of x k of None \<Rightarrow> map_of e0 k | Some v \<Rightarrow> Some v)"
          by (simp add: e dict_update_map_of [OF dx])
        have g1: "dict_get e ''uid'' = ?ux"
          using m [of "''uid''"] uidx by (simp add: dict_get_def)
        have g2: "map_of e k = last_write (q @ [x]) ?ux k" for k
          using m [of k] ih by (simp add: last_write_snoc split: option.splits)
        show ?thesis
          unfolding u using g1 g2 by blast
      qed
    qed
  qed
qed

lemma update_view_frame [simp]:
  "heap (update_view kw c) = heap c" "d_map (update_view kw c) = d_map c"
  "effects (update_view kw c) = effects c @ [UpdateView (total_speed_update c), UpdateView (view_kwargs c kw)]"
  by (simp_all add: update_view_def)

lemma view_depends_on_store:
  assumes "heap c' = heap c" "d_map c' = d_map c"
  shows "view_kwargs c' kw = view_kwargs c kw \<and> total_speed_update c' = total_speed_update c"
  unfolding view_kwargs_def total_speed_update_def total_speed_def d_map_values_def assms
  by simp

lemma flush_effects:
  "heap (fold (\<lambda>(k, v). update_view v) B c) = heap c
   \<and> d_map (fold (\<lambda>(k, v). update_view v) B c) = d_map c
   \<and> effects (fold (\<lambda>(k, v). update_view v) B c)
       = effects c @ concat (map (\<lambda>(k, v). [UpdateView (total_speed_update c), UpdateView (view_kwargs c v)]) B)"
proof (induction B arbitrary: c)
  case Nil
  show ?case by simp
next
  case (Cons p B)
  obtain k v where p: "p = (k, v)" by (cases p)
  have same: "\<And>kw. view_kwargs (update_view v c) kw = view_kwargs c kw"
      "total_speed_update (update_view v c) = total_speed_update c"
    using view_depends_on_store [of "update_view v c" c] by simp_all
  show ?case
    using Cons.IH [of "update_view v c"] by (simp add: p same)
qed

lemma flush_output_eq:
  "flush_output q c = concat (map (\<lambda>(k, v). [total_speed_update c, view_kwargs c v]) (fill_buffer q))"
proof -
  have "\<And>B. concat (map (\<lambda>e. case e of UpdateView kw \<Rightarrow> [kw] | _ \<Rightarrow> [])
           (concat (map (\<lambda>(k, v). [UpdateView (total_speed_update c), UpdateView (view_kwargs c v)]) B)))
         = concat (map (\<lambda>(k, v). [total_speed_update c, view_kwargs c v]) B)"
    by (induct_tac B) auto
  then show ?thesis
    using flush_effects [of "fill_buffer q" c]
    by (simp add: flush_output_def observer_flush_def)
qed

lemma view_kwargs_fields:
  "k \<notin> {''command'', ''progress'', ''speed'', ''eta''} \<Longrightarrow> map_of (view_kwargs c kw) k = map_of kw k"
  "map_of (view_kwargs c kw) ''command''
     = Some (case map_of kw ''command'' of None \<Rightarrow> StrV ''update'' | Some v \<Rightarrow> v)"
proof -
  define k1 where "k1 = (if map_of kw ''command'' = None
                         then kw @ [(''command'', StrV ''update'')] else kw)"
  let ?derived = "\<lambda>r. [(''progress'', IntV (progress (heap c r))), (''speed'', IntV (speed (heap c r))),
                        (''eta'', IntV (eta (heap c r)))]"
  have a: "map_of k1 k' = map_of kw k'" if "k' \<noteq> ''command''" for k'
    using that by (simp add: k1_def map_add_def split: option.splits)
  have b: "map_of k1 ''command'' = Some (case map_of kw ''command'' of None \<Rightarrow> StrV ''update'' | Some v \<Rightarrow> v)"
    by (auto simp: k1_def map_add_def split: option.splits)
  have d: "map_of (dict_update k1 (?derived r)) k' = map_of k1 k'"
    if "k' \<notin> {''progress'', ''speed'', ''eta''}" for k' r
    using that by (simp add: dict_update_map_of)
  have cases: "view_kwargs c kw = k1 \<or> (\<exists>r. view_kwargs c kw = dict_update k1 (?derived r))"
    unfolding view_kwargs_def Let_def k1_def [symmetric]
    by (cases "dict_get k1 ''uid''") (auto split: option.splits)
  show "k \<notin> {''command'', ''progress'', ''speed'', ''eta''} \<Longrightarrow> map_of (view_kwargs c kw) k = map_of kw k"
    using cases a [of k] d [of k] by auto
  show "map_of (view_kwargs c kw) ''command''
     = Some (case map_of kw ''command'' of None \<Rightarrow> StrV ''update'' | Some v \<Rightarrow> v)"
    using cases b d [of "''command''"] by auto
qed

lemma view_kwargs_uid [simp]: "dict_get (view_kwargs c kw) ''uid'' = dict_get kw ''uid''"
  using view_kwargs_fields(1) [of "''uid''" c kw] by (simp add: dict_get_def)

lemma total_speed_update_uid [simp]: "dict_get (total_speed_update c) ''uid'' = NoneV"
  by (simp add: total_speed_update_def dict_get_def)

lemma updates_for_buffer:
  assumes "distinct (map fst B)" "\<forall>(k, v)\<in>set B. dict_get v ''uid'' = k" "u \<noteq> NoneV"
  shows "updates_for u (concat (map (\<lambda>(k, v). [total_speed_update c, view_kwargs c v]) B))
           = (case map_of B u of None \<Rightarrow> [] | Some e \<Rightarrow> [view_kwargs c e])"
  using assms
proof (induction B)
  case Nil
  show ?case by (simp add: updates_for_def)
next
  case (Cons p B)
  obtain k v where p: "p = (k, v)" by (cases p)
  have ih: "updates_for u (concat (map (\<lambda>(k, v). [total_speed_update c, view_kwargs c v]) B))
           = (case map_of B u of None \<Rightarrow> [] | Some e \<Rightarrow> [view_kwargs c e])"
    using Cons by simp
  have kv: "dict_get v ''uid'' = k" using Cons.prems p by simp
  have notin: "map_of B k = None" using Cons.prems p by (simp add: map_of_eq_None_iff)
  show ?case
    using ih kv notin Cons.prems(3)
    by (auto simp: p updates_for_def)
qed

lemma fill_buffer_uids:
  assumes "\<forall>item\<in>set q. distinct (map fst item)"
  shows "\<forall>(k, v)\<in>set (fill_buffer q). dict_get v ''uid'' = k \<and> truthy k"
proof -
  have "dict_get v ''uid'' = k \<and> truthy k" if "(k, v) \<in> set (fill_buffer q)" for k v
  proof -
    have m: "map_of (fill_buffer q) k = Some v"
      using that fill_buffer_distinct [of q] by simp
    show ?thesis
      using fill_buffer_entry [OF assms m] fill_buffer_dom [of q k] m by simp
  qed
  then show ?thesis by auto
qed

lemma flush_order:
  assumes "\<forall>(k, v)\<in>set B. dict_get v ''uid'' = k \<and> truthy k"
  shows "map (\<lambda>kw. dict_get kw ''uid'')
           (filter (\<lambda>kw. truthy (dict_get kw ''uid''))
             (concat (map (\<lambda>(k, v). [total_speed_update c, view_kwargs c v]) B))) = map fst B"
  using assms by (induction B) (auto simp: truthy_def)

lemma fill_buffer_window3:
  "fill_buffer window3 =
     [(StrV ''u'', [(''uid'', StrV ''u''), (''downloaded'', IntV 250), (''name'', StrV ''a'')]),
      (StrV ''v'', [(''uid'', StrV ''v''), (''downloaded'', IntV 5)])]"
  by (simp add: window3_def fill_buffer_def observe_item_def dict_get_def dict_update_def
      truthy_def Let_def)

lemma total_speed_not_update:
  assumes "truthy (dict_get v ''uid'')"
  shows "view_kwargs c v \<noteq> total_speed_update c"
proof
  assume eq: "view_kwargs c v = total_speed_update c"
  have "dict_get v ''uid'' = dict_get (view_kwargs c v) ''uid''" by simp
  also have "\<dots> = NoneV" unfolding eq by simp
  finally show False using assms by (simp add: truthy_def)
qed

lemma count_total_speed:
  assumes "\<forall>(k, v)\<in>set B. dict_get v ''uid'' = k \<and> truthy k"
  shows "count_list (concat (map (\<lambda>(k, v). [total_speed_update c, view_kwargs c v]) B))
           (total_speed_update c) = length B"
  using assms
proof (induction B)
  case Nil
  show ?case by simp
next
  case (Cons p B)
  obtain k v where p: "p = (k, v)" by (cases p)
  have "view_kwargs c v \<noteq> total_speed_update c"
    using Cons.prems p total_speed_not_update [of v c] by simp
  then show ?case using Cons p by simp
qed






lemma checked_refl [simp]: "checked c c"
  by (simp add: checked_def check_effects_def)

lemma checked_trans: "checked c c1 \<Longrightarrow> checked c1 c2 \<Longrightarrow> checked c c2"
  by (auto simp: checked_def check_effects_def)

lemma checked_log: "checked c c1 \<Longrightarrow> checked c (log m b c1)"
  by (auto simp: checked_def check_effects_def)

lemma checked_emit:
  "checked c c1 \<Longrightarrow> check_effects [e] \<Longrightarrow> checked c (emit e c1)"
  by (auto simp: checked_def check_effects_def)

lemma check_effects_simps [simp]:
  "check_effects [AskUser n]" "check_effects [DownloadFfmpeg]" "check_effects [DeleteFile f]"
  "check_effects [Log m b]"
  by (simp_all add: check_effects_def)

lemma grew_log [simp]: "checked c c1 \<Longrightarrow> grew c (log m b c1)"
  by (auto simp: grew_def checked_def)

lemma grew_emit [simp]: "checked c c1 \<Longrightarrow> grew c (emit e c1)"
  by (auto simp: grew_def checked_def)

lemma grew_trans: "grew c c1 \<Longrightarrow> checked c1 c2 \<Longrightarrow> grew c c2"
  by (auto simp: grew_def checked_def)

lemma grew_trans': "checked c c1 \<Longrightarrow> grew c1 c2 \<Longrightarrow> grew c c2"
  by (auto simp: grew_def checked_def)

lemma rename_status [simp]: "status (rename env d) = status d" "type (rename env d) = type d"
  by (simp_all add: rename_def)

lemma resumable_check_facts:
  assumes "resumable_check env silent d c = (out, d1, c1)"
  shows "checked c c1 \<and> status d1 = status d \<and> type d1 = type d \<and> out \<noteq> Again
         \<and> (out \<noteq> Passed \<longrightarrow> grew c c1)"
  using assms
  by (auto simp: resumable_check_def checked_emit split: if_splits)

lemma list_check_facts:
  assumes "list_check env silent d c = (out, d1, c1)"
  shows "checked c c1 \<and> status d1 = status d \<and> type d1 = type d \<and> (out \<noteq> Passed \<longrightarrow> grew c c1)"
proof (cases "map_of (d_map c) (uid d)")
  case None
  let ?c0 = "log ''fresh file download'' False c"
  have r: "resumable_check env silent d ?c0 = (out, d1, c1)"
    using assms None by (simp add: list_check_def)
  have c0: "checked c ?c0" "grew c ?c0" by (simp_all add: checked_log)
  show ?thesis
    using resumable_check_facts [OF r] c0 checked_trans [of c ?c0 c1] grew_trans [of c ?c0 c1]
    by auto
next
  case (Some r')
  let ?c0 = "log ''download item already in list'' False c"
  have c0: "checked c ?c0" "grew c ?c0" by (simp_all add: checked_log)
  show ?thesis
  proof (cases "total_size d = total_size (heap c r')")
    case True
    let ?c1 = "log ''resume is possible'' False ?c0"
    have c1: "checked c ?c1" "grew c ?c1" using c0 by (simp_all add: checked_log)
    have r: "resumable_check env silent (d\<lparr>downloaded := downloaded (heap c r')\<rparr>) ?c1 = (out, d1, c1)"
      using assms Some True by (simp add: list_check_def)
    show ?thesis
      using resumable_check_facts [OF r] c1 checked_trans [of c ?c1 c1] grew_trans [of c ?c1 c1]
      by auto
  next
    case False
    then show ?thesis
      using assms Some c0 by (auto simp: list_check_def checked_log)
  qed
qed

lemma name_check_facts:
  assumes "name_check cfg env silent d c = (out, d1, c1)"
  shows "checked c c1 \<and> status d1 = status d \<and> type d1 = type d \<and> (out \<noteq> Passed \<longrightarrow> grew c c1)"
proof (cases "name d \<noteq> [] \<and> (isfile env (target_file d) \<longrightarrow>
          \<not> (auto_rename cfg \<or> silent) \<and> get_user_response env 4 \<noteq> ''Rename''
          \<and> get_user_response env 4 = ''Overwrite'')")
  case False
  then show ?thesis
    using assms by (auto simp: name_check_def checked_log checked_emit split: if_splits)
next
  case True
  show ?thesis
  proof (cases "isfile env (target_file d)")
    case False
    then have "list_check env silent d c = (out, d1, c1)"
      using assms True by (simp add: name_check_def)
    then show ?thesis using list_check_facts by blast
  next
    case isf: True
    let ?c0 = "emit (DeleteFile (target_file d)) (emit (AskUser 4) c)"
    have c0: "checked c ?c0" "grew c ?c0" by (simp_all add: checked_emit)
    have "list_check env silent d ?c0 = (out, d1, c1)"
      using assms True isf by (simp add: name_check_def)
    then show ?thesis
      using list_check_facts [of env silent d ?c0 out d1 c1] c0
        checked_trans [of c ?c0 c1] grew_trans [of c ?c0 c1]
      by auto
  qed
qed

lemma folder_check_facts:
  assumes "folder_check cfg env silent d c = (out, d1, c1)"
  shows "checked c c1 \<and> status d1 = status d \<and> type d1 = type d \<and> (out \<noteq> Passed \<longrightarrow> grew c c1)"
proof (cases "folder_test env (if folder d \<noteq> [] then folder d else download_folder cfg)")
  case FolderOk
  then have "name_check cfg env silent
      (d\<lparr>folder := (if folder d \<noteq> [] then folder d else download_folder cfg)\<rparr>) c = (out, d1, c1)"
    using assms by (simp add: folder_check_def)
  then show ?thesis using name_check_facts [of cfg env silent _ c out d1 c1] by simp
next
  case FileNotFoundError
  then show ?thesis using assms by (auto simp: folder_check_def checked_log)
next
  case PermissionError
  then show ?thesis using assms by (auto simp: folder_check_def checked_log)
next
  case OtherError
  then show ?thesis using assms by (auto simp: folder_check_def checked_log)
qed

lemma ffmpeg_check_facts:
  assumes "ffmpeg_check cfg env silent d c = (out, d1, c1)"
  shows "checked c c1 \<and> status d1 = status d \<and> type d1 = type d \<and> (out \<noteq> Passed \<longrightarrow> grew c c1)"
proof (cases "type d \<in> {MediaType_video, MediaType_audio, MediaType_key} \<and> \<not> check_ffmpeg env")
  case True
  then show ?thesis
    using assms by (auto simp: ffmpeg_check_def checked_log checked_emit split: if_splits)
next
  case False
  then have "folder_check cfg env silent d c = (out, d1, c1)"
    using assms by (auto simp: ffmpeg_check_def)
  then show ?thesis using folder_check_facts by blast
qed

lemma protocol_check_facts:
  assumes "protocol_check cfg env silent d c = (out, d1, c1)"
  shows "checked c c1 \<and> status d1 = status d \<and> type d1 = type d \<and> (out \<noteq> Passed \<longrightarrow> grew c c1)
         \<and> (out \<in> {Passed, Again} \<longrightarrow> status d \<notin> set active_states)"
proof (cases "status d \<in> set active_states
              \<or> filter (\<lambda>item. item \<in> set (subtype_list d)) [''f4m'', ''ism''] \<noteq> []")
  case True
  then show ?thesis
    using assms by (auto simp: protocol_check_def checked_log split: if_splits)
next
  case False
  then have "ffmpeg_check cfg env silent d c = (out, d1, c1)"
    using assms by (simp add: protocol_check_def)
  then show ?thesis using ffmpeg_check_facts [of cfg env silent d c out d1 c1] False by simp
qed

lemma checks_once_facts:
  assumes "checks_once cfg env silent d c = (out, d1, c1)"
  shows "checked c c1 \<and> status d1 = status d \<and> type d1 = type d
         \<and> (out \<noteq> Passed \<and> \<not> (silent \<and> html_or_missing d) \<longrightarrow> grew c c1)
         \<and> (out \<in> {Passed, Again} \<longrightarrow> status d \<notin> set active_states)"
proof (cases "html_or_missing d")
  case False
  then have "protocol_check cfg env silent d c = (out, d1, c1)"
    using assms by (simp add: checks_once_def html_or_missing_def)
  then show ?thesis using protocol_check_facts [of cfg env silent d c out d1 c1] by simp
next
  case True
  show ?thesis
  proof (cases silent)
    case True
    then show ?thesis
      using assms \<open>html_or_missing d\<close> by (auto simp: checks_once_def html_or_missing_def)
  next
    case False
    let ?d0 = "if get_user_response env 1 = ''Ok'' then d\<lparr>accept_html := True\<rparr> else d"
    let ?c0 = "emit (AskUser 1) c"
    have c0: "checked c ?c0" "grew c ?c0" by (simp_all add: checked_emit)
    have d0: "status ?d0 = status d" "type ?d0 = type d" by simp_all
    have "protocol_check cfg env silent ?d0 ?c0 = (out, d1, c1)"
      using assms True False by (simp add: checks_once_def html_or_missing_def)
    then show ?thesis
      using protocol_check_facts [of cfg env silent ?d0 ?c0 out d1 c1] c0
        checked_trans [of c ?c0 c1] grew_trans [of c ?c0 c1]
      unfolding d0 by auto
  qed
qed

lemma pre_download_checks_facts:
  assumes "pre_download_checks fuel cfg env silent d c = (out, d1, c1)"
  shows "checked c c1 \<and> status d1 = status d \<and> out \<noteq> Again
         \<and> (out = Passed \<longrightarrow> status d1 \<notin> set active_states)
         \<and> (out = Failed \<and> \<not> (silent \<and> html_or_missing d) \<longrightarrow> grew c c1)"
  using assms
proof (induction fuel arbitrary: d c)
  case 0
  then show ?case by auto
next
  case (Suc fuel)
  obtain o2 d2 c2 where once: "checks_once cfg env silent d c = (o2, d2, c2)"
    by (cases "checks_once cfg env silent d c") auto
  note f = checks_once_facts [OF once]
  show ?case
  proof (cases "o2 = Again")
    case False
    then have "(out, d1, c1) = (o2, d2, c2)"
      using Suc.prems once by (cases o2) simp_all
    then show ?thesis using f False by auto
  next
    case True
    then have rec: "pre_download_checks fuel cfg env silent d2 c2 = (out, d1, c1)"
      using Suc.prems once by simp
    note ih = Suc.IH [OF rec]
    have g: "grew c c2"
    proof (cases "silent \<and> html_or_missing d")
      case False
      then show ?thesis using f True by simp
    next
      case h: True
      then have "checks_once cfg env silent d c = (Failed, d, c)"
        by (simp add: checks_once_def html_or_missing_def)
      then show ?thesis using once True by simp
    qed
    show ?thesis
      using ih f g checked_trans [of c c2 c1] grew_trans [of c c2 c1] by auto
  qed
qed

lemma download_not_passed:
  assumes "pre_download_checks fuel cfg env silent (kwargs (heap c r0)) c = (out, d1, c1)"
    and "out \<noteq> Passed"
  shows "download fuel cfg env c (Some r0) kwargs silent later
           = (case out of Raise e \<Rightarrow> caught cfg ''download()> error:'' e c1 | _ \<Rightarrow> (None, c1))"
  using assms
  by (cases out) (simp_all add: download_def download_submit_def)












lemma register_frame [simp]:
  "pending_downloads_q (register d c) = pending_downloads_q c"
  "next_ref (register d c) = Suc (next_ref c)"
  "effects (register d c) = effects c @ [ReportD (next_ref c) ''new'']"
  by (simp_all add: register_def)


text \<open>The definitions that a run of the checks on a concrete input unfolds.\<close>

lemmas eval_checks = download_submit_def checks_once_def protocol_check_def ffmpeg_check_def
  folder_check_def name_check_def list_check_def resumable_check_def register_def
  active_downloads_def d_map_values_def item0_def env0_def config0_def
  MediaType_video_def MediaType_audio_def MediaType_key_def target_file_def active_states_def
  log_def emit_def


lemma two_items_second:
  "fst (download_submit (Suc 0) config0 env0
          (register item0 (log ''fresh file download'' False two_items)) (Some 1) id True False)
     = Admitted 3"
  by (simp add: eval_checks two_items_def)






section \<open>Scheduling in the past or without a date (claim C10)\<close>

text \<open>
  Claim C10, as the code has it. \<open>schedule_start\<close> with a target that is not a datetime,
  or with a datetime before the current time, changes no item: the heap and the store
  are what they were, so \<open>sched\<close> and \<open>status\<close> of the item are untouched. A target
  that is not a datetime returns without any message (the controller is left exactly as
  it was); a datetime in the past is reported by one log line with a popup.
\<close>

theorem schedule_start_rejection:
  assumes "target_date = NotDatetime \<or> (\<exists>t. target_date = Datetime t \<and> t < now)"
  shows "heap (schedule_start now c u vi target_date) = heap c
       \<and> d_map (schedule_start now c u vi target_date) = d_map c
       \<and> (target_date = NotDatetime \<longrightarrow> schedule_start now c u vi target_date = c)
       \<and> (target_date \<noteq> NotDatetime \<and> get_d c u vi \<noteq> None \<longrightarrow>
            effects (schedule_start now c u vi target_date)
              = effects c @ [Log ''Can not Schedule something in the past'' True])"
  using assms
  by (auto simp: schedule_start_def log_def split: option.splits py_target.splits)

theorem schedule_start_rejection_witness:
  "heap (schedule_start 10 (controller1 pending) (Some ''u'') None (Datetime 5)) = heap (controller1 pending)
   \<and> status (heap (schedule_start 10 (controller1 pending) (Some ''u'') None (Datetime 5)) 0) = pending
   \<and> effects (schedule_start 10 (controller1 pending) (Some ''u'') None (Datetime 5))
       = [Log ''Can not Schedule something in the past'' True]"
  using schedule_start_rejection [of "Datetime 5" 10 "controller1 pending" "Some ''u''" None]
  by (simp add: controller1_def get_d_def)

text \<open>
  The claim as stated has the rejection reported. For an item of the store and a target
  that is not a datetime, nothing is reported: the list of effects stays empty.
\<close>

theorem schedule_start_silent_counterexample:
  "get_d (controller1 pending) (Some ''u'') None = Some 0
   \<and> schedule_start 10 (controller1 pending) (Some ''u'') None NotDatetime = controller1 pending
   \<and> effects (schedule_start 10 (controller1 pending) (Some ''u'') None NotDatetime) = []"
  by (simp add: schedule_start_def get_d_def controller1_def)

section \<open>The bound on url refreshes (claim C2)\<close>



section \<open>Stopping a download (claim C6)\<close>




section \<open>The completion watchdog fires once (claim C4)\<close>



section \<open>One consolidated update per identifier (claim C3)\<close>

text \<open>
  Claim C3. The events of a flush window are dictionaries (no key twice). For an
  identifier \<open>u\<close> that is truthy and is carried by at least one event of the window, the
  flush sends exactly one update with that identifier. In it every field other than the
  command and the three derived fields has the value that last write wins gives: the
  value of the last event of \<open>u\<close> that sets the field, so that a later event that does
  not set a field leaves an earlier value in place; the command is handled the same way,
  with the default \<open>update\<close>. The updates that carry an identifier are sent in the order
  in which the identifiers were first seen in the window.
\<close>

theorem observer_one_update_per_uid:
  assumes "\<forall>item\<in>set q. distinct (map fst item)"
    and "truthy u" and "\<exists>item\<in>set q. dict_get item ''uid'' = u"
  shows "(\<exists>kw. updates_for u (flush_output q c) = [kw]
            \<and> (\<forall>k. k \<notin> {''command'', ''progress'', ''speed'', ''eta''} \<longrightarrow> map_of kw k = last_write q u k)
            \<and> map_of kw ''command''
                = Some (case last_write q u ''command'' of None \<Rightarrow> StrV ''update'' | Some v \<Rightarrow> v))
       \<and> map (\<lambda>kw. dict_get kw ''uid'') (filter (\<lambda>kw. truthy (dict_get kw ''uid'')) (flush_output q c))
           = first_seen (filter truthy (map (\<lambda>item. dict_get item ''uid'') q))"
proof -
  obtain e where e: "map_of (fill_buffer q) u = Some e"
    using fill_buffer_dom [of q u] assms(2,3) by auto
  have ent: "dict_get e ''uid'' = u" "\<forall>k. map_of e k = last_write q u k"
    using fill_buffer_entry [OF assms(1) e] by simp_all
  have uids: "\<forall>(k, v)\<in>set (fill_buffer q). dict_get v ''uid'' = k \<and> truthy k"
    using fill_buffer_uids [OF assms(1)] .
  have uids': "\<forall>(k, v)\<in>set (fill_buffer q). dict_get v ''uid'' = k"
    using uids by auto
  have nn: "u \<noteq> NoneV" using assms(2) by (auto simp: truthy_def)
  have one: "updates_for u (flush_output q c) = [view_kwargs c e]"
    using updates_for_buffer [OF fill_buffer_distinct uids' nn, of c] e
    by (simp add: flush_output_eq)
  have fields: "\<forall>k. k \<notin> {''command'', ''progress'', ''speed'', ''eta''} \<longrightarrow>
      map_of (view_kwargs c e) k = last_write q u k"
    using view_kwargs_fields(1) [of _ c e] ent(2) by simp
  have cmd: "map_of (view_kwargs c e) ''command''
                = Some (case last_write q u ''command'' of None \<Rightarrow> StrV ''update'' | Some v \<Rightarrow> v)"
    using view_kwargs_fields(2) [of c e] ent(2) by simp
  have order: "map (\<lambda>kw. dict_get kw ''uid'') (filter (\<lambda>kw. truthy (dict_get kw ''uid'')) (flush_output q c))
           = first_seen (filter truthy (map (\<lambda>item. dict_get item ''uid'') q))"
    using flush_order [OF uids, of c] by (simp add: flush_output_eq fill_buffer_keys)
  show ?thesis using one fields cmd order by blast
qed

theorem observer_one_update_per_uid_witness:
  "updates_for (StrV ''u'') (flush_output window3 controller0)
     = [[(''uid'', StrV ''u''), (''downloaded'', IntV 250), (''name'', StrV ''a''),
         (''command'', StrV ''update'')]]
   \<and> map (\<lambda>kw. dict_get kw ''uid'')
         (filter (\<lambda>kw. truthy (dict_get kw ''uid'')) (flush_output window3 controller0))
       = [StrV ''u'', StrV ''v'']
   \<and> last_write window3 (StrV ''u'') ''downloaded'' = Some (IntV 250)
   \<and> last_write window3 (StrV ''u'') ''name'' = Some (StrV ''a'')"
proof -
  have wf: "\<forall>item\<in>set window3. distinct (map fst item)"
    by (simp add: window3_def)
  have tr: "truthy (StrV ''u'')"
    by (simp add: truthy_def)
  have ex: "\<exists>item\<in>set window3. dict_get item ''uid'' = StrV ''u''"
    by (simp add: window3_def dict_get_def)
  have order: "map (\<lambda>kw. dict_get kw ''uid'')
         (filter (\<lambda>kw. truthy (dict_get kw ''uid'')) (flush_output window3 controller0))
       = first_seen (filter truthy (map (\<lambda>item. dict_get item ''uid'') window3))"
    using observer_one_update_per_uid [OF wf tr ex, of controller0] by blast
  have fs: "first_seen (filter truthy (map (\<lambda>item. dict_get item ''uid'') window3))
       = [StrV ''u'', StrV ''v'']"
    by (simp add: window3_def first_seen_def dict_get_def truthy_def)
  have out: "flush_output window3 controller0
     = [[(''command'', StrV ''total_speed''), (''total_speed'', IntV 0)],
        [(''uid'', StrV ''u''), (''downloaded'', IntV 250), (''name'', StrV ''a''),
         (''command'', StrV ''update'')],
        [(''command'', StrV ''total_speed''), (''total_speed'', IntV 0)],
        [(''uid'', StrV ''v''), (''downloaded'', IntV 5), (''command'', StrV ''update'')]]"
    by (simp add: flush_output_eq fill_buffer_window3 view_kwargs_def dict_get_def Let_def
        total_speed_update_def total_speed_def d_map_values_def controller0_def)
  have uf: "updates_for (StrV ''u'') (flush_output window3 controller0)
     = [[(''uid'', StrV ''u''), (''downloaded'', IntV 250), (''name'', StrV ''a''),
         (''command'', StrV ''update'')]]"
    unfolding out by (simp add: updates_for_def dict_get_def)
  have lw: "last_write window3 (StrV ''u'') ''downloaded'' = Some (IntV 250)"
      "last_write window3 (StrV ''u'') ''name'' = Some (StrV ''a'')"
    by (simp_all add: last_write_def window3_def dict_get_def)
  show ?thesis using order fs uf lw by simp
qed

section \<open>The total speed is sent with every update (claim C7)\<close>

text \<open>
  Claim C7, as the code has it. \<open>_update_view\<close> computes the sum of the speeds of the
  items whose status is \<open>downloading\<close> and sends it as a notification of its own, with
  the command \<open>total_speed\<close>, immediately before the update it was called for. A flush
  therefore sends the total speed once per consolidated update, that is once per
  identifier touched in the window, and not at all for a window without events.
\<close>

theorem total_speed_per_update:
  assumes "\<forall>item\<in>set q. distinct (map fst item)"
  shows "flush_output q c = concat (map (\<lambda>(k, v). [total_speed_update c, view_kwargs c v]) (fill_buffer q))
       \<and> count_list (flush_output q c) (total_speed_update c)
           = length (first_seen (filter truthy (map (\<lambda>item. dict_get item ''uid'') q)))
       \<and> total_speed_update c
           = [(''command'', StrV ''total_speed''),
              (''total_speed'',
               IntV (sum_list (map speed (filter (\<lambda>d. status d = downloading) (d_map_values c)))))]"
proof -
  have "count_list (flush_output q c) (total_speed_update c) = length (fill_buffer q)"
    using count_total_speed [OF fill_buffer_uids [OF assms], of c] by (simp add: flush_output_eq)
  also have "\<dots> = length (map fst (fill_buffer q))" by simp
  also have "\<dots> = length (first_seen (filter truthy (map (\<lambda>item. dict_get item ''uid'') q)))"
    by (simp only: fill_buffer_keys)
  finally show ?thesis
    by (simp add: flush_output_eq total_speed_update_def total_speed_def)
qed

theorem total_speed_per_update_witness:
  "count_list (flush_output window3 (controller1 downloading)) (total_speed_update (controller1 downloading)) = 2
   \<and> total_speed_update (controller1 downloading)
       = [(''command'', StrV ''total_speed''), (''total_speed'', IntV 0)]"
proof -
  have wf: "\<forall>item\<in>set window3. distinct (map fst item)"
    by (simp add: window3_def)
  have n: "length (first_seen (filter truthy (map (\<lambda>item. dict_get item ''uid'') window3))) = 2"
    by (simp add: window3_def first_seen_def dict_get_def truthy_def)
  have ts: "sum_list (map speed (filter (\<lambda>d. status d = downloading) (d_map_values (controller1 downloading)))) = 0"
    by (simp add: controller1_def d_map_values_def item0_def)
  have "count_list (flush_output window3 (controller1 downloading)) (total_speed_update (controller1 downloading))
          = length (first_seen (filter truthy (map (\<lambda>item. dict_get item ''uid'') window3)))"
    and "total_speed_update (controller1 downloading)
           = [(''command'', StrV ''total_speed''),
              (''total_speed'',
               IntV (sum_list (map speed (filter (\<lambda>d. status d = downloading) (d_map_values (controller1 downloading))))))]"
    using total_speed_per_update [OF wf, of "controller1 downloading"] by blast+
  then show ?thesis using n ts by simp
qed

text \<open>
  The claim as stated has the total speed sent once per flush window. A window that
  touches two identifiers sends it twice, once before each update; an empty window
  sends nothing at all.
\<close>

theorem total_speed_twice_counterexample:
  "flush_output window3 controller0
     = [[(''command'', StrV ''total_speed''), (''total_speed'', IntV 0)],
        [(''uid'', StrV ''u''), (''downloaded'', IntV 250), (''name'', StrV ''a''),
         (''command'', StrV ''update'')],
        [(''command'', StrV ''total_speed''), (''total_speed'', IntV 0)],
        [(''uid'', StrV ''v''), (''downloaded'', IntV 5), (''command'', StrV ''update'')]]
   \<and> flush_output [] controller0 = []"
proof -
  have "fill_buffer [] = []" by (simp add: fill_buffer_def)
  then show ?thesis
    by (simp add: flush_output_eq fill_buffer_window3 view_kwargs_def dict_get_def Let_def
        total_speed_update_def total_speed_def d_map_values_def controller0_def)
qed

section \<open>The actions after a completed download (claim C9)\<close>




section \<open>A submission that fails the checks is not registered (claim C8)\<close>

text \<open>
  Claim C8, as the code has it. When \<open>_pre_download_checks\<close> does not return true for
  a submission (it returns false or an exception leaves it), \<open>download\<close> returns with
  every item, the store, the pending queue and the references handed out as they were:
  the item is not registered, no observer is registered, no engine is run. All it
  leaves are log lines, questions to the user and, where the user asked for them, the
  deletion of the existing file or the start of the download of ffmpeg. At least one
  log line or question is left, except by a silent submission of an item whose content
  type is missing or HTML, which leaves nothing. When the checks return false,
  \<open>download\<close> returns normally.
\<close>

theorem download_rejected_not_registered:
  assumes "fst (pre_download_checks fuel cfg env silent (kwargs (heap c r0)) c) \<noteq> Passed"
  shows "heap (snd (download fuel cfg env c (Some r0) kwargs silent later)) = heap c
       \<and> d_map (snd (download fuel cfg env c (Some r0) kwargs silent later)) = d_map c
       \<and> next_ref (snd (download fuel cfg env c (Some r0) kwargs silent later)) = next_ref c
       \<and> pending_downloads_q (snd (download fuel cfg env c (Some r0) kwargs silent later))
           = pending_downloads_q c
       \<and> (\<exists>es. effects (snd (download fuel cfg env c (Some r0) kwargs silent later)) = effects c @ es
              \<and> check_effects es
              \<and> (\<not> (silent \<and> html_or_missing (kwargs (heap c r0))) \<longrightarrow> es \<noteq> []))
       \<and> (fst (pre_download_checks fuel cfg env silent (kwargs (heap c r0)) c) = Failed
            \<longrightarrow> fst (download fuel cfg env c (Some r0) kwargs silent later) = None)"
proof -
  obtain out d1 c1 where pc: "pre_download_checks fuel cfg env silent (kwargs (heap c r0)) c = (out, d1, c1)"
    by (cases "pre_download_checks fuel cfg env silent (kwargs (heap c r0)) c") auto
  have np: "out \<noteq> Passed" using assms pc by simp
  note f = pre_download_checks_facts [OF pc]
  note dl = download_not_passed [of fuel cfg env silent kwargs c r0 out d1 c1 later, OF pc np]
  let ?c' = "snd (download fuel cfg env c (Some r0) kwargs silent later)"
  have ch: "checked c ?c'"
    using dl f by (cases out) (simp_all add: caught_def checked_log)
  have gr: "grew c ?c'" if "\<not> (silent \<and> html_or_missing (kwargs (heap c r0)))"
    using dl f np that by (cases out) (simp_all add: caught_def)
  have ex: "fst (download fuel cfg env c (Some r0) kwargs silent later) = None" if "out = Failed"
    using dl that by simp
  obtain es where es: "effects ?c' = effects c @ es" "check_effects es"
    using ch by (auto simp: checked_def)
  have ne: "es \<noteq> []" if "\<not> (silent \<and> html_or_missing (kwargs (heap c r0)))"
    using gr [OF that] es by (auto simp: grew_def)
  show ?thesis
    using ch es ne ex pc by (auto simp: checked_def)
qed

theorem download_rejected_not_registered_witness:
  "fst (download (Suc 0) config0 env0 (playlist_of (item0\<lparr>name := []\<rparr>)) (Some 0) id True False) = None
   \<and> d_map (snd (download (Suc 0) config0 env0 (playlist_of (item0\<lparr>name := []\<rparr>)) (Some 0) id True False)) = []
   \<and> next_ref (snd (download (Suc 0) config0 env0 (playlist_of (item0\<lparr>name := []\<rparr>)) (Some 0) id True False)) = 1
   \<and> effects (snd (download (Suc 0) config0 env0 (playlist_of (item0\<lparr>name := []\<rparr>)) (Some 0) id True False))
       = [Log ''File name can not be empty!!'' False]"
proof -
  let ?c = "playlist_of (item0\<lparr>name := []\<rparr>)"
  have pc: "pre_download_checks (Suc 0) config0 env0 True (heap ?c 0) ?c
            = (Failed, item0\<lparr>name := [], folder := ''/tmp''\<rparr>,
               log ''File name can not be empty!!'' False ?c)"
    by (simp add: checks_once_def protocol_check_def ffmpeg_check_def folder_check_def
        name_check_def item0_def env0_def config0_def playlist_of_def active_states_def
        MediaType_video_def MediaType_audio_def MediaType_key_def)
  have dl: "download (Suc 0) config0 env0 ?c (Some 0) id True False
          = (None, log ''File name can not be empty!!'' False ?c)"
    using download_not_passed [of "Suc 0" config0 env0 True id ?c 0 Failed _ _ False] pc by simp
  show ?thesis
    using download_rejected_not_registered [of "Suc 0" config0 env0 True id ?c 0 False] pc dl
    by (simp add: playlist_of_def)
qed

text \<open>
  The claim as stated has every failed submission report a failure. A silent
  submission of an item whose content type is that of an HTML page fails the checks and
  leaves the controller exactly as it was: no log line, no effect at all.
\<close>

theorem download_silent_html_counterexample:
  "fst (pre_download_checks (Suc 0) config0 env0 True (heap (playlist_of (item0\<lparr>type := ''text/html''\<rparr>)) 0)
          (playlist_of (item0\<lparr>type := ''text/html''\<rparr>))) = Failed
   \<and> download (Suc 0) config0 env0 (playlist_of (item0\<lparr>type := ''text/html''\<rparr>)) (Some 0) id True False
       = (None, playlist_of (item0\<lparr>type := ''text/html''\<rparr>))
   \<and> effects (playlist_of (item0\<lparr>type := ''text/html''\<rparr>)) = []"
  by (simp add: download_def download_submit_def checks_once_def item0_def playlist_of_def)

section \<open>Admission under the ceiling (claim C1)\<close>




section \<open>Draining the pending queue (claim C5)\<close>



end
